theory Spec2Isabelle
  imports Main "HOL-Library.Char_ord" "HOL-Library.List_Lexorder" "HOL-Library.Multiset"
begin

section \<open>Data model\<close>

text \<open>
  Go strings are byte sequences and compare bytewise, which is the lexicographic order on
  \<^typ>\<open>char list\<close> with characters ordered by their code. A \<open>time.Time\<close> is only
  stored, copied and formatted by this program, so an instant is an opaque integer.
\<close>

type_synonym Time = int

text \<open>Error values. \<open>Error\<close> below gives the text Go's \<open>Error()\<close> method returns.\<close>

datatype error =
    responseError "string list"
      \<comment> \<open>\<open>&responseError\<close>: the messages of the GraphQL error envelope (the spec's APIError)\<close>
  | HTTPStatusError string
      \<comment> \<open>\<open>errors.Errorf("response returned status %s", r.Status)\<close>\<close>
  | InvalidEmailError string
      \<comment> \<open>\<open>fmt.Errorf("%s is an invalid email address", email)\<close>\<close>
  | Wrapped string error
      \<comment> \<open>\<open>errors.Errorf("<text>: %w", err)\<close>\<close>
  | External string
      \<comment> \<open>an error value handed over by the standard library (transport, JSON, file system)\<close>
  | Panic string
      \<comment> \<open>a run-time panic\<close>

record Authorization =
  ID :: string
  Email :: string
  Name :: string
  CreatedAt :: Time
  ExpireAt :: "Time option"
  RevokedAt :: "Time option"
  UserSessionDestroyedAt :: "Time option"

record OrgMember =
  ID :: string
  Name :: string
  Email :: string
  Role :: string
  Bot :: bool
  Complimentary :: bool
  CreatedAt :: Time
  Authorization :: "Authorization option"

record Member =
  ID :: string
  Email :: string
  Domain :: string
  Name :: string
  Org :: string
  Role :: string
  LastAuth :: "Time option"
  Complimentary :: bool

text \<open>
  \<open>MemberWithDuplicates\<close> embeds \<open>Member\<close>; the embedded struct is the field \<open>Member\<close>,
  so Go's promoted \<open>r.ID\<close> is \<open>Member.ID (Member r)\<close>.
\<close>

record MemberWithDuplicates =
  Member :: Member
  NameDuplicates :: "Member list"
  EmailDuplicates :: "Member list"

record cli =
  Debug :: bool
  APIToken :: string
  OrgSlugs :: "string list"
  Cache :: bool
  CacheDir :: string
  Dedupe :: "string list"
  Output :: string
  Email :: string


datatype rendering =
    Count nat
      \<comment> \<open>\<open>fmt.Println(len(result))\<close>\<close>
  | Json "MemberWithDuplicates list"
      \<comment> \<open>the list handed to \<open>prettyjson.Marshal\<close> and printed\<close>
  | Csv "string list list"
      \<comment> \<open>the records written to \<open>output.csv\<close>, header first\<close>
  | Nothing
      \<comment> \<open>\<open>c.Output\<close> is none of \<open>count\<close>, \<open>json\<close>, \<open>csv\<close>\<close>

text \<open>
  What the command takes from outside: the standard library's \<open>strings.ToLower\<close>
  (Unicode aware) and \<open>Time.Format\<close> with the layout \<open>2006-01-02 15:04:05\<close>; the
  creation of the output file and of the cache directory; and the two function values the
  variable \<open>getOrgMembers\<close> of \<open>cli.getMembers\<close> can hold, the client's
  \<open>GetOrgMembers\<close> and the closure that serves an organisation from the cache directory
  when its file is there and otherwise fetches and stores it. \<open>None\<close> is a fetch that
  never returns. One run sees one answer per organisation slug.
\<close>

record world =
  strings_ToLower :: "string \<Rightarrow> string"
  time_Format :: "Time \<Rightarrow> string"
  os_Create :: "string \<Rightarrow> error option"
  os_MkdirAll :: "string \<Rightarrow> error option"
  client_GetOrgMembers :: "string \<Rightarrow> (error + OrgMember list) option"
  cached_GetOrgMembers :: "string \<Rightarrow> string \<Rightarrow> (error + OrgMember list) option"

section \<open>The GraphQL client (package \<open>buildkite\<close>)\<close>

text \<open>
  An \<open>http.Response\<close> as far as the client reads it. \<open>Body\<close> is what
  \<open>ioutil.ReadAll(r.Body)\<close> yields: the whole body, or a read error.
\<close>

record Response =
  StatusCode :: int
  Status :: string
  Body :: "error + string"

text \<open>The value the page query is decoded into (the anonymous struct \<open>r\<close>, flattened).\<close>

record pageInfo =
  HasNextPage :: bool
  EndCursor :: string

record authNode =
  ID :: string
  Identity_Name :: string
  Identity_Email :: string
  CreatedAt :: Time
  ExpiredAt :: "Time option"
  RevokedAt :: Time
  UserSessionDestroyedAt :: "Time option"

record memberNode =
  CreatedAt :: Time
  Role :: string
  Complimentary :: bool
  User_ID :: string
  User_Name :: string
  User_Email :: string
  User_Bot :: bool
  Sso_Authorizations_Edges :: "authNode list"

record membersResponse =
  PageInfo :: pageInfo
  Edges :: "memberNode list"

text \<open>
  What the client takes from outside: the HTTP round trip for the page query with the
  variables \<open>orgSlug\<close> and \<open>after\<close>; the error messages \<open>json.Unmarshal\<close> leaves in a
  \<open>responseError\<close> (its own error is discarded by the code); the JSON decoder.
  The requests sent are logged, oldest first, as pairs \<open>(orgSlug, after)\<close>.
\<close>

record client =
  httpClient_Do :: "string \<Rightarrow> string \<Rightarrow> error + Response"
  json_Unmarshal_Errors :: "string \<Rightarrow> string list"
  json_Decode :: "string \<Rightarrow> error + membersResponse"

type_synonym requests = "(string \<times> string) list"

definition StatusOK :: int where
  "StatusOK = 200"

text \<open>The page size is the literal \<open>first: 100\<close> of the query text; the server applies it.\<close>

definition pageSize :: nat where
  "pageSize = 100"



definition checkResponseForErrors ::
  "client \<Rightarrow> Response \<Rightarrow> Response \<times> error option" where
  "checkResponseForErrors c r =
     (case Body r of
        Inl err \<Rightarrow> (r, Some (Wrapped ''failed to read body'' err))
      | Inr data \<Rightarrow>
          (let r = r\<lparr>Body := Inr data\<rparr>;
               errResp = json_Unmarshal_Errors c data
           in if length errResp > 0 then (r, Some (responseError errResp))
              else if StatusCode r \<noteq> StatusOK then (r, Some (HTTPStatusError (Status r)))
              else (r, None)))"

definition Do ::
  "client \<Rightarrow> string \<Rightarrow> string \<Rightarrow> requests \<Rightarrow> (Response option \<times> error option) \<times> requests" where
  "Do c orgSlug after log =
     (case httpClient_Do c orgSlug after of
        Inl err \<Rightarrow> ((None, Some (Wrapped ''request failed'' err)), log @ [(orgSlug, after)])
      | Inr resp \<Rightarrow>
          (let (resp, err) = checkResponseForErrors c resp
           in ((Some resp, err), log @ [(orgSlug, after)])))"

definition DecodeInto :: "client \<Rightarrow> Response \<Rightarrow> error + membersResponse" where
  "DecodeInto c r =
     (case Body r of
        Inl err \<Rightarrow> Inl (Wrapped ''error decoding response'' err)
      | Inr data \<Rightarrow>
          (case json_Decode c data of
             Inl err \<Rightarrow> Inl (Wrapped ''error decoding response'' err)
           | Inr v \<Rightarrow> Inr v))"

definition edgeMember :: "memberNode \<Rightarrow> OrgMember" where
  "edgeMember node =
     (let member = \<lparr>OrgMember.ID = User_ID node,
                    OrgMember.Name = User_Name node,
                    OrgMember.Email = User_Email node,
                    OrgMember.Role = memberNode.Role node,
                    OrgMember.Bot = User_Bot node,
                    OrgMember.Complimentary = memberNode.Complimentary node,
                    OrgMember.CreatedAt = memberNode.CreatedAt node,
                    OrgMember.Authorization = None\<rparr>
      in case Sso_Authorizations_Edges node of
           [] \<Rightarrow> member
         | authEdge # _ \<Rightarrow>
             member\<lparr>OrgMember.Authorization := Some
               \<lparr>Authorization.ID = authNode.ID authEdge,
                Authorization.Email = Identity_Email authEdge,
                Authorization.Name = Identity_Name authEdge,
                Authorization.CreatedAt = authNode.CreatedAt authEdge,
                Authorization.ExpireAt = ExpiredAt authEdge,
                Authorization.RevokedAt = Some (authNode.RevokedAt authEdge),
                Authorization.UserSessionDestroyedAt =
                  authNode.UserSessionDestroyedAt authEdge\<rparr>\<rparr>)"

definition getOrgMembersPage ::
  "client \<Rightarrow> string \<Rightarrow> string \<Rightarrow> requests \<Rightarrow> (error + OrgMember list \<times> string) \<times> requests" where
  "getOrgMembersPage c orgSlug after log =
     (case Do c orgSlug after log of
        ((_, Some err), log) \<Rightarrow> (Inl (Wrapped ''failed to get authorizations'' err), log)
      | ((None, None), log) \<Rightarrow> (Inl (Panic ''nil pointer dereference''), log)
      | ((Some resp, None), log) \<Rightarrow>
          (case DecodeInto c resp of
             Inl err \<Rightarrow> (Inl err, log)
           | Inr r \<Rightarrow>
               (let members = map edgeMember (Edges r);
                    endCursor = EndCursor (PageInfo r);
                    hasNextPage = HasNextPage (PageInfo r)
                in if hasNextPage \<and> endCursor \<noteq> [] then (Inr (members, endCursor), log)
                   else (Inr (members, []), log))))"

text \<open>
  The \<open>for\<close> loop of \<open>GetOrgMembers\<close> has no bound of its own: it ends when a page comes
  back without a next cursor. \<open>None\<close> is the loop that never ends.
\<close>

partial_function (option) GetOrgMembers_loop ::
  "client \<Rightarrow> string \<Rightarrow> string \<Rightarrow> OrgMember list \<Rightarrow> requests
     \<Rightarrow> ((error + OrgMember list) \<times> requests) option" where
  "GetOrgMembers_loop c orgSlug after result log =
     (case getOrgMembersPage c orgSlug after log of
        (Inl err, log) \<Rightarrow> Some (Inl err, log)
      | (Inr (members, nextAfter), log) \<Rightarrow>
          if nextAfter = [] then Some (Inr (result @ members), log)
          else GetOrgMembers_loop c orgSlug nextAfter (result @ members) log)"

definition GetOrgMembers ::
  "client \<Rightarrow> string \<Rightarrow> requests \<Rightarrow> ((error + OrgMember list) \<times> requests) option" where
  "GetOrgMembers c orgSlug log = GetOrgMembers_loop c orgSlug [] [] log"

section \<open>The command (package \<open>main\<close>)\<close>

subsection \<open>Fetching and normalising: \<open>cli.getMembers\<close>\<close>

text \<open>\<open>strings.LastIndex(s, "@")\<close> for a one-byte separator: scan from the end.\<close>

fun lastIndexByte :: "string \<Rightarrow> char \<Rightarrow> nat \<Rightarrow> int" where
  "lastIndexByte s c 0 = - 1"
| "lastIndexByte s c (Suc i) = (if s ! i = c then int i else lastIndexByte s c i)"

definition LastIndex :: "string \<Rightarrow> char \<Rightarrow> int" where
  "LastIndex s c = lastIndexByte s c (length s)"

definition getEmailDomain :: "string \<Rightarrow> error + string" where
  "getEmailDomain email =
     (let at = LastIndex email CHR ''@''
      in if at \<ge> 0 then Inr (drop (nat (at + 1)) email)
         else Inl (InvalidEmailError email))"

text \<open>The body of the inner loop of \<open>getMembers\<close>: one \<open>OrgMember\<close> to one \<open>Member\<close>.\<close>

definition normalize :: "world \<Rightarrow> string \<Rightarrow> OrgMember \<Rightarrow> error + Member" where
  "normalize w orgSlug orgMember =
     (let m = \<lparr>Member.ID = OrgMember.ID orgMember,
               Member.Email = OrgMember.Email orgMember,
               Member.Domain = [],
               Member.Name = OrgMember.Name orgMember,
               Member.Org = orgSlug,
               Member.Role = strings_ToLower w (OrgMember.Role orgMember),
               Member.LastAuth = None,
               Member.Complimentary = OrgMember.Complimentary orgMember\<rparr>;
          m = (case Authorization orgMember of
                 None \<Rightarrow> m
               | Some a \<Rightarrow> m\<lparr>Member.Email := Authorization.Email a,
                              Member.LastAuth := Some (Authorization.CreatedAt a)\<rparr>)
      in case getEmailDomain (Member.Email m) of
           Inl err \<Rightarrow> Inl err
         | Inr domain \<Rightarrow> Inr (m\<lparr>Member.Domain := domain\<rparr>))"


primrec normalizeMembers ::
  "world \<Rightarrow> string \<Rightarrow> OrgMember list \<Rightarrow> Member list \<Rightarrow> error + Member list" where
  "normalizeMembers w orgSlug [] result = Inr result"
| "normalizeMembers w orgSlug (orgMember # members) result =
     (case normalize w orgSlug orgMember of
        Inl err \<Rightarrow> Inl err
      | Inr m \<Rightarrow> normalizeMembers w orgSlug members (result @ [m]))"

text \<open>
  The value of the variable \<open>getOrgMembers\<close>: the cached alternative is switched in when
  \<open>c.Cache\<close> is set.
\<close>

definition getOrgMembers :: "world \<Rightarrow> cli \<Rightarrow> string \<Rightarrow> (error + OrgMember list) option" where
  "getOrgMembers w c =
     (if Cache c then cached_GetOrgMembers w (CacheDir c) else client_GetOrgMembers w)"

primrec getMembers_loop ::
  "world \<Rightarrow> (string \<Rightarrow> (error + OrgMember list) option) \<Rightarrow> string list \<Rightarrow> Member list
     \<Rightarrow> (error + Member list) option" where
  "getMembers_loop w fetch [] result = Some (Inr result)"
| "getMembers_loop w fetch (orgSlug # orgSlugs) result =
     (case fetch orgSlug of
        None \<Rightarrow> None
      | Some (Inl err) \<Rightarrow> Some (Inl err)
      | Some (Inr members) \<Rightarrow>
          (case normalizeMembers w orgSlug members result of
             Inl err \<Rightarrow> Some (Inl err)
           | Inr result \<Rightarrow> getMembers_loop w fetch orgSlugs result))"

text \<open>
  \<open>buildkite.NewClient\<close> fails only when the constant endpoint URL does not parse, which
  it does; the directory of the cache is made before the first fetch.
\<close>

definition getMembers :: "world \<Rightarrow> cli \<Rightarrow> (error + Member list) option" where
  "getMembers w c =
     (if Cache c
      then (case os_MkdirAll w (CacheDir c) of
              Some err \<Rightarrow> Some (Inl err)
            | None \<Rightarrow> getMembers_loop w (getOrgMembers w c) (OrgSlugs c) [])
      else getMembers_loop w (getOrgMembers w c) (OrgSlugs c) [])"

subsection \<open>The report and its collapse: \<open>cli.Run\<close>\<close>

definition filterMembers :: "Member list \<Rightarrow> (Member \<Rightarrow> bool) \<Rightarrow> Member list" where
  "filterMembers members f = filter f members"

definition filterMembersByEmail :: "Member list \<Rightarrow> string \<Rightarrow> Member list" where
  "filterMembersByEmail members email = filterMembers members (\<lambda>m. Member.Email m = email)"

text \<open>
  The loop over the sorted e-mails. \<open>byEmail[0]\<close> panics on an empty slice; the model
  keeps that branch.
\<close>

fun report_loop ::
  "Member list \<Rightarrow> string \<Rightarrow> string list \<Rightarrow> MemberWithDuplicates list
     \<Rightarrow> error + MemberWithDuplicates list" where
  "report_loop members cEmail [] result = Inr result"
| "report_loop members cEmail (email # emails) result =
     (if cEmail \<noteq> [] \<and> cEmail \<noteq> email then report_loop members cEmail emails result
      else case filterMembersByEmail members email of
             [] \<Rightarrow> Inl (Panic ''index out of range'')
           | member # rest \<Rightarrow>
               (let byName = filterMembers members
                      (\<lambda>m. Member.Name m = Member.Name member
                            \<and> Member.Email m \<noteq> Member.Email member)
                in report_loop members cEmail emails
                     (result @ [\<lparr>Member = member,
                                 NameDuplicates = byName,
                                 EmailDuplicates = rest\<rparr>])))"

definition BuildReport :: "Member list \<Rightarrow> string \<Rightarrow> error + MemberWithDuplicates list" where
  "BuildReport members cEmail =
     (let emails = sort (map Member.Email members)
      in report_loop members cEmail emails [])"

definition dedupeFlags :: "string list \<Rightarrow> bool \<times> bool" where
  "dedupeFlags dedupe =
     foldl (\<lambda>(dedupeEmail, dedupeName) d.
              if d = ''email'' then (True, dedupeName)
              else if d = ''name'' then (dedupeEmail, True)
              else (dedupeEmail, dedupeName))
           (False, False) dedupe"

text \<open>\<open>seenMembers\<close> is a \<open>map[string]bool\<close>; the code tests the presence of a key.\<close>

definition markSeen :: "Member list \<Rightarrow> (string \<rightharpoonup> bool) \<Rightarrow> (string \<rightharpoonup> bool)" where
  "markSeen rrs seenMembers = foldl (\<lambda>seen rr. seen(Member.ID rr \<mapsto> True)) seenMembers rrs"

fun collapse_step ::
  "bool \<Rightarrow> bool \<Rightarrow> MemberWithDuplicates list \<times> (string \<rightharpoonup> bool) \<Rightarrow> MemberWithDuplicates
     \<Rightarrow> MemberWithDuplicates list \<times> (string \<rightharpoonup> bool)" where
  "collapse_step dedupeEmail dedupeName (dupeResults, seenMembers) r =
     (if seenMembers (Member.ID (Member r)) \<noteq> None then (dupeResults, seenMembers)
      else
        (let dupeResults = dupeResults @ [r];
             seenMembers = seenMembers(Member.ID (Member r) \<mapsto> True);
             seenMembers = (if dedupeEmail then markSeen (EmailDuplicates r) seenMembers
                            else seenMembers);
             seenMembers = (if dedupeName then markSeen (NameDuplicates r) seenMembers
                            else seenMembers)
         in (dupeResults, seenMembers)))"

definition Collapse ::
  "bool \<Rightarrow> bool \<Rightarrow> MemberWithDuplicates list \<Rightarrow> MemberWithDuplicates list" where
  "Collapse dedupeEmail dedupeName result =
     (if dedupeEmail \<or> dedupeName
      then fst (foldl (collapse_step dedupeEmail dedupeName) ([], Map.empty) result)
      else result)"

subsection \<open>Output\<close>

definition csvHeader :: "string list" where
  "csvHeader = [''email'', ''name'', ''org'', ''role'', ''last_sso_auth'']"

definition csvRecord :: "world \<Rightarrow> Member \<Rightarrow> string list" where
  "csvRecord w member =
     (let lastAuth = (case LastAuth member of None \<Rightarrow> [] | Some t \<Rightarrow> time_Format w t)
      in [Member.Email member, Member.Name member, Member.Org member, Member.Role member,
          lastAuth])"

definition Run :: "world \<Rightarrow> cli \<Rightarrow> (error + rendering) option" where
  "Run w c =
     (case getMembers w c of
        None \<Rightarrow> None
      | Some (Inl err) \<Rightarrow> Some (Inl err)
      | Some (Inr members) \<Rightarrow>
          (case BuildReport members (cli.Email c) of
             Inl err \<Rightarrow> Some (Inl err)
           | Inr result \<Rightarrow>
               (let (dedupeEmail, dedupeName) = dedupeFlags (Dedupe c);
                    result = Collapse dedupeEmail dedupeName result
                in if Output c = ''count'' then Some (Inr (Count (length result)))
                   else if Output c = ''json'' then Some (Inr (Json result))
                   else if Output c = ''csv'' then
                     (case os_Create w ''output.csv'' of
                        Some err \<Rightarrow> Some (Inl err)
                      | None \<Rightarrow> Some (Inr (Csv (csvHeader # map (csvRecord w) members))))
                   else Some (Inr Nothing))))"

section \<open>The collapse as the specification words it\<close>

text \<open>
  This definition follows the words of the specification (section 4.4), not the code:
  walk the report in order, skip an entry whose representative id has been seen; when an
  entry is kept, mark its id seen, with \<open>dedupeByEmail\<close> also every id in its
  \<open>EmailDuplicates\<close>, with \<open>dedupeByName\<close> also every id in its \<open>NameDuplicates\<close>.
  It is compared with \<open>Collapse\<close>, the translation of the code, below.
\<close>

fun Collapse_spec ::
  "bool \<Rightarrow> bool \<Rightarrow> string set \<Rightarrow> MemberWithDuplicates list \<Rightarrow> MemberWithDuplicates list" where
  "Collapse_spec dedupeByEmail dedupeByName seen [] = []"
| "Collapse_spec dedupeByEmail dedupeByName seen (r # report) =
     (if Member.ID (Member r) \<in> seen then Collapse_spec dedupeByEmail dedupeByName seen report
      else r # Collapse_spec dedupeByEmail dedupeByName
                 (seen \<union> {Member.ID (Member r)}
                    \<union> (if dedupeByEmail then Member.ID ` set (EmailDuplicates r) else {})
                    \<union> (if dedupeByName then Member.ID ` set (NameDuplicates r) else {}))
                 report)"


section \<open>Concrete inputs\<close>

text \<open>
  A world for evaluating the model: ASCII lower-casing stands in for \<open>strings.ToLower\<close>,
  the output file and the cache directory can always be created, and two organisations are
  served, from the cache as from the API.
\<close>

definition toLowerASCII :: "string \<Rightarrow> string" where
  "toLowerASCII s =
     map (\<lambda>c. case map_of (zip ''ABCDEFGHIJKLMNOPQRSTUVWXYZ'' ''abcdefghijklmnopqrstuvwxyz'') c of
                None \<Rightarrow> c
              | Some l \<Rightarrow> l) s"

definition exampleWorld :: "(string \<Rightarrow> (error + OrgMember list) option) \<Rightarrow> world" where
  "exampleWorld fetch =
     \<lparr>strings_ToLower = toLowerASCII,
      time_Format = (\<lambda>t. ''2022-01-13 06:23:40''),
      os_Create = (\<lambda>name. None),
      os_MkdirAll = (\<lambda>path. None),
      client_GetOrgMembers = fetch,
      cached_GetOrgMembers = (\<lambda>cacheDir. fetch)\<rparr>"

definition llama :: OrgMember where
  "llama = \<lparr>OrgMember.ID = ''u1'', OrgMember.Name = ''Mr Llama'',
            OrgMember.Email = ''llama@llamas.com'', OrgMember.Role = ''MEMBER'',
            OrgMember.Bot = False, OrgMember.Complimentary = False,
            OrgMember.CreatedAt = 1600000000, OrgMember.Authorization = None\<rparr>"

definition alpaca :: OrgMember where
  "alpaca = \<lparr>OrgMember.ID = ''u2'', OrgMember.Name = ''Al Paca'',
            OrgMember.Email = ''al@home.org'', OrgMember.Role = ''ADMIN'',
            OrgMember.Bot = False, OrgMember.Complimentary = True,
            OrgMember.CreatedAt = 1600000500,
            OrgMember.Authorization = Some
              \<lparr>Authorization.ID = ''a1'', Authorization.Email = ''alpaca@llamas.com'',
               Authorization.Name = ''Alpaca (SSO)'', Authorization.CreatedAt = 1642055020,
               Authorization.ExpireAt = None, Authorization.RevokedAt = Some 0,
               Authorization.UserSessionDestroyedAt = None\<rparr>\<rparr>"

definition nobody :: OrgMember where
  "nobody = \<lparr>OrgMember.ID = ''u3'', OrgMember.Name = ''Nobody'',
            OrgMember.Email = ''nobody'', OrgMember.Role = ''MEMBER'',
            OrgMember.Bot = True, OrgMember.Complimentary = False,
            OrgMember.CreatedAt = 1600000900, OrgMember.Authorization = None\<rparr>"

definition exampleFetch :: "string \<Rightarrow> (error + OrgMember list) option" where
  "exampleFetch orgSlug =
     (if orgSlug = ''my-llama-org'' then Some (Inr [llama, alpaca])
      else if orgSlug = ''my-alpaca-org'' then Some (Inr [alpaca, nobody])
      else Some (Inl (External ''organization not found'')))"

definition exampleCli :: "string list \<Rightarrow> cli" where
  "exampleCli orgSlugs =
     \<lparr>Debug = False, APIToken = ''xxx'', OrgSlugs = orgSlugs, Cache = False,
      CacheDir = ''./.cache'', Dedupe = [], Output = ''json'', cli.Email = []\<rparr>"


text \<open>The three members of the scenario of section 8.\<close>

definition scenarioMember :: "string \<Rightarrow> string \<Rightarrow> string \<Rightarrow> string \<Rightarrow> Member" where
  "scenarioMember i email name org =
     \<lparr>Member.ID = i, Member.Email = email, Member.Domain = ''x.com'', Member.Name = name,
      Member.Org = org, Member.Role = ''member'', Member.LastAuth = None,
      Member.Complimentary = False\<rparr>"

definition id1 :: Member where "id1 = scenarioMember ''1'' ''a@x.com'' ''Llama'' ''O1''"
definition id2 :: Member where "id2 = scenarioMember ''2'' ''a@x.com'' ''Llama'' ''O2''"
definition id3 :: Member where "id3 = scenarioMember ''3'' ''b@x.com'' ''Llama'' ''O1''"


text \<open>
  A server for the page query that holds a fixed list of member nodes and serves them
  \<open>pageSize\<close> at a time. The cursor after \<open>k\<close> pages is \<open>k\<close> characters long, and the
  body of a response stands for its JSON text: it is the cursor the page was asked with,
  which the decoder turns into the page.
\<close>

definition pagedClient :: "memberNode list \<Rightarrow> client" where
  "pagedClient nodes =
     \<lparr>httpClient_Do = (\<lambda>orgSlug after.
        Inr \<lparr>StatusCode = 200, Status = ''200 OK'', Body = Inr after\<rparr>),
      json_Unmarshal_Errors = (\<lambda>data. []),
      json_Decode = (\<lambda>data.
        Inr \<lparr>PageInfo = \<lparr>HasNextPage = (Suc (length data) * pageSize < length nodes),
                         EndCursor = replicate (Suc (length data)) CHR ''c''\<rparr>,
             Edges = take pageSize (drop (length data * pageSize) nodes)\<rparr>)\<rparr>"

definition exampleNode :: "nat \<Rightarrow> memberNode" where
  "exampleNode n =
     \<lparr>memberNode.CreatedAt = 1600000000 + int n, memberNode.Role = ''MEMBER'',
      memberNode.Complimentary = False, User_ID = CHR ''u'' # replicate n CHR ''i'',
      User_Name = ''Llama'', User_Email = ''llama@llamas.com'', User_Bot = False,
      Sso_Authorizations_Edges = []\<rparr>"



section \<open>Properties\<close>

subsection \<open>E-mail domains and normalisation\<close>























text \<open>
  Claim C3. A normalised member carries the identity e-mail of the authorization when there
  is one and the account e-mail otherwise; its last-auth time is the creation time of the
  authorization when there is one and is absent otherwise; its role is the lower-cased raw
  role.
\<close>

theorem normalize_effective_fields:
  "normalize w orgSlug orgMember = Inr m \<Longrightarrow>
     Member.Email m = (case Authorization orgMember of
                         None \<Rightarrow> OrgMember.Email orgMember
                       | Some a \<Rightarrow> Authorization.Email a)
     \<and> Member.LastAuth m = (case Authorization orgMember of
                              None \<Rightarrow> None
                            | Some a \<Rightarrow> Some (Authorization.CreatedAt a))
     \<and> Member.Role m = strings_ToLower w (OrgMember.Role orgMember)"
  by (auto simp: normalize_def Let_def split: option.splits sum.splits)

theorem normalize_effective_fields_witness:
  "normalize (exampleWorld exampleFetch) ''my-llama-org'' alpaca = Inr
     \<lparr>Member.ID = ''u2'', Member.Email = ''alpaca@llamas.com'', Member.Domain = ''llamas.com'',
      Member.Name = ''Al Paca'', Member.Org = ''my-llama-org'', Member.Role = ''admin'',
      Member.LastAuth = Some 1642055020, Member.Complimentary = True\<rparr>
   \<and> ''alpaca@llamas.com'' = Authorization.Email (the (Authorization alpaca))
   \<and> Some 1642055020 = Some (Authorization.CreatedAt (the (Authorization alpaca)))
   \<and> ''admin'' = strings_ToLower (exampleWorld exampleFetch) ''ADMIN''"
  using normalize_effective_fields [of "exampleWorld exampleFetch" "''my-llama-org''" alpaca
          "\<lparr>Member.ID = ''u2'', Member.Email = ''alpaca@llamas.com'',
            Member.Domain = ''llamas.com'', Member.Name = ''Al Paca'',
            Member.Org = ''my-llama-org'', Member.Role = ''admin'',
            Member.LastAuth = Some 1642055020, Member.Complimentary = True\<rparr>"]
  by (simp add: normalize_def exampleWorld_def alpaca_def getEmailDomain_def LastIndex_def
        toLowerASCII_def)

text \<open>
  Claim C9. The id, name, role and complimentary flag of a normalised member come from the
  account record and its organisation from the slug, with or without an authorization; the
  name is the account name whatever the SSO identity is called. Replacing the authorization
  changes the e-mail, the domain computed from it, and the last-auth time, and nothing else.
\<close>

theorem normalize_frame:
  "normalize w orgSlug orgMember = Inr m \<Longrightarrow>
     Member.ID m = OrgMember.ID orgMember
     \<and> Member.Name m = OrgMember.Name orgMember
     \<and> Member.Org m = orgSlug
     \<and> Member.Role m = strings_ToLower w (OrgMember.Role orgMember)
     \<and> Member.Complimentary m = OrgMember.Complimentary orgMember
     \<and> (\<forall>a m'. normalize w orgSlug (orgMember\<lparr>Authorization := a\<rparr>) = Inr m' \<longrightarrow>
           m' = m\<lparr>Member.Email := Member.Email m', Member.Domain := Member.Domain m',
                  Member.LastAuth := Member.LastAuth m'\<rparr>)"
  by (auto simp: normalize_def Let_def split: option.splits sum.splits)

theorem normalize_frame_witness:
  "normalize (exampleWorld exampleFetch) ''my-alpaca-org'' alpaca = Inr
     \<lparr>Member.ID = ''u2'', Member.Email = ''alpaca@llamas.com'', Member.Domain = ''llamas.com'',
      Member.Name = ''Al Paca'', Member.Org = ''my-alpaca-org'', Member.Role = ''admin'',
      Member.LastAuth = Some 1642055020, Member.Complimentary = True\<rparr>
   \<and> OrgMember.Name alpaca = ''Al Paca''
   \<and> Authorization.Name (the (Authorization alpaca)) = ''Alpaca (SSO)''
   \<and> normalize (exampleWorld exampleFetch) ''my-alpaca-org'' (alpaca\<lparr>Authorization := None\<rparr>) = Inr
     \<lparr>Member.ID = ''u2'', Member.Email = ''al@home.org'', Member.Domain = ''home.org'',
      Member.Name = ''Al Paca'', Member.Org = ''my-alpaca-org'', Member.Role = ''admin'',
      Member.LastAuth = None, Member.Complimentary = True\<rparr>"
  using normalize_frame [of "exampleWorld exampleFetch" "''my-alpaca-org''" alpaca
          "\<lparr>Member.ID = ''u2'', Member.Email = ''alpaca@llamas.com'',
            Member.Domain = ''llamas.com'', Member.Name = ''Al Paca'',
            Member.Org = ''my-alpaca-org'', Member.Role = ''admin'',
            Member.LastAuth = Some 1642055020, Member.Complimentary = True\<rparr>"]
  by (simp add: normalize_def exampleWorld_def alpaca_def getEmailDomain_def LastIndex_def
        toLowerASCII_def)

subsection \<open>The GraphQL client\<close>



lemma getOrgMembersPage_decoded:
  assumes "httpClient_Do c orgSlug after = Inr resp" and "Body resp = Inr data"
    and "json_Unmarshal_Errors c data = []" and "StatusCode resp = StatusOK"
    and "json_Decode c data = Inr r"
  shows "getOrgMembersPage c orgSlug after log =
           (Inr (map edgeMember (Edges r),
                 if HasNextPage (PageInfo r) \<and> EndCursor (PageInfo r) \<noteq> []
                 then EndCursor (PageInfo r) else []),
            log @ [(orgSlug, after)])"
  using assms
  by (simp add: getOrgMembersPage_def Do_def checkResponseForErrors_def DecodeInto_def Let_def)

lemma GetOrgMembers_loop_decoded:
  assumes "httpClient_Do c orgSlug after = Inr resp" and "Body resp = Inr data"
    and "json_Unmarshal_Errors c data = []" and "StatusCode resp = StatusOK"
    and "json_Decode c data = Inr r"
  shows "GetOrgMembers_loop c orgSlug after result log =
           (if HasNextPage (PageInfo r) \<and> EndCursor (PageInfo r) \<noteq> []
            then GetOrgMembers_loop c orgSlug (EndCursor (PageInfo r))
                   (result @ map edgeMember (Edges r)) (log @ [(orgSlug, after)])
            else Some (Inr (result @ map edgeMember (Edges r)), log @ [(orgSlug, after)]))"
  by (subst GetOrgMembers_loop.simps)
     (simp add: getOrgMembersPage_decoded[OF assms])


lemma pagedClient_loop:
  "GetOrgMembers_loop (pagedClient nodes) orgSlug after result log =
     (if Suc (length after) * pageSize < length nodes
      then GetOrgMembers_loop (pagedClient nodes) orgSlug (replicate (Suc (length after)) CHR ''c'')
             (result @ map edgeMember (take pageSize (drop (length after * pageSize) nodes)))
             (log @ [(orgSlug, after)])
      else Some (Inr (result @ map edgeMember (take pageSize (drop (length after * pageSize) nodes))),
                 log @ [(orgSlug, after)]))"
  using GetOrgMembers_loop_decoded [of "pagedClient nodes" orgSlug after
          "\<lparr>StatusCode = 200, Status = ''200 OK'', Body = Inr after\<rparr>" after
          "\<lparr>PageInfo = \<lparr>HasNextPage = (Suc (length after) * pageSize < length nodes),
                         EndCursor = replicate (Suc (length after)) CHR ''c''\<rparr>,
             Edges = take pageSize (drop (length after * pageSize) nodes)\<rparr>" result log]
  by (simp add: pagedClient_def StatusOK_def)

lemma three_pages:
  assumes "length (nodes :: 'a list) = 250"
  shows "take 100 nodes @ take 100 (drop 100 nodes) @ take 100 (drop 200 nodes) = nodes"
proof -
  have "take 100 (drop 200 nodes) = drop 200 nodes" using assms by simp
  moreover have "take 100 (drop 100 nodes) @ drop 200 nodes = drop 100 nodes"
    using append_take_drop_id[of 100 "drop 100 nodes"] by simp
  ultimately show ?thesis by simp
qed

lemma pagedClient_250:
  assumes "length nodes = 250"
  shows "GetOrgMembers (pagedClient nodes) orgSlug [] =
           Some (Inr (map edgeMember nodes),
                 [(orgSlug, []), (orgSlug, ''c''), (orgSlug, ''cc'')])"
proof -
  have "GetOrgMembers (pagedClient nodes) orgSlug [] =
          GetOrgMembers_loop (pagedClient nodes) orgSlug ''c''
            (map edgeMember (take 100 nodes)) [(orgSlug, [])]"
    unfolding GetOrgMembers_def
    by (subst pagedClient_loop) (simp add: assms pageSize_def)
  also have "\<dots> = GetOrgMembers_loop (pagedClient nodes) orgSlug ''cc''
            (map edgeMember (take 100 nodes) @ map edgeMember (take 100 (drop 100 nodes)))
            [(orgSlug, []), (orgSlug, ''c'')]"
    by (subst pagedClient_loop) (simp add: assms pageSize_def)
  also have "\<dots> = Some (Inr (map edgeMember (take 100 nodes)
                              @ map edgeMember (take 100 (drop 100 nodes))
                              @ map edgeMember (take 100 (drop 200 nodes))),
                        [(orgSlug, []), (orgSlug, ''c''), (orgSlug, ''cc'')])"
    by (subst pagedClient_loop) (simp add: assms pageSize_def)
  also have "map edgeMember (take 100 nodes)
                              @ map edgeMember (take 100 (drop 100 nodes))
                              @ map edgeMember (take 100 (drop 200 nodes))
             = map edgeMember (take 100 nodes @ take 100 (drop 100 nodes) @ take 100 (drop 200 nodes))"
    by simp
  also have "\<dots> = map edgeMember nodes"
    by (simp only: three_pages[OF assms])
  finally show ?thesis .
qed

lemma pagedClient_from:
  "k = 0 \<or> k * 100 < length nodes \<Longrightarrow>
     GetOrgMembers_loop (pagedClient nodes) orgSlug (replicate k CHR ''c'') result log =
       Some (Inr (result @ map edgeMember (drop (k * 100) nodes)),
             log @ map (\<lambda>j. (orgSlug, replicate j CHR ''c''))
                     [k..<max 1 ((length nodes + 99) div 100)])"
proof (induction "length nodes - k * 100" arbitrary: k result log rule: less_induct)
  case less
  let ?pages = "max 1 ((length nodes + 99) div 100)"
  show ?case
  proof (cases "Suc k * 100 < length nodes")
    case True
    then have lt: "length nodes - Suc k * 100 < length nodes - k * 100" by simp
    have kp: "k < ?pages" using True by simp
    have "GetOrgMembers_loop (pagedClient nodes) orgSlug (replicate k CHR ''c'') result log =
            GetOrgMembers_loop (pagedClient nodes) orgSlug (replicate (Suc k) CHR ''c'')
              (result @ map edgeMember (take 100 (drop (k * 100) nodes)))
              (log @ [(orgSlug, replicate k CHR ''c'')])"
      using True by (subst pagedClient_loop) (simp add: pageSize_def)
    also have "\<dots> = Some (Inr ((result @ map edgeMember (take 100 (drop (k * 100) nodes)))
                                @ map edgeMember (drop (Suc k * 100) nodes)),
             (log @ [(orgSlug, replicate k CHR ''c'')])
               @ map (\<lambda>j. (orgSlug, replicate j CHR ''c'')) [Suc k..<?pages])"
      using less(1)[OF lt] True by blast
    also have "(result @ map edgeMember (take 100 (drop (k * 100) nodes)))
                                @ map edgeMember (drop (Suc k * 100) nodes)
               = result @ map edgeMember (drop (k * 100) nodes)"
    proof -
      have "take 100 (drop (k * 100) nodes) @ drop (Suc k * 100) nodes = drop (k * 100) nodes"
        using append_take_drop_id[of 100 "drop (k * 100) nodes"] by (simp add: add.commute)
      then show ?thesis by (metis append_assoc map_append)
    qed
    also have "(log @ [(orgSlug, replicate k CHR ''c'')])
               @ map (\<lambda>j. (orgSlug, replicate j CHR ''c'')) [Suc k..<?pages]
             = log @ map (\<lambda>j. (orgSlug, replicate j CHR ''c'')) [k..<?pages]"
      using kp by (simp add: upt_conv_Cons)
    finally show ?thesis .
  next
    case False
    have last: "take 100 (drop (k * 100) nodes) = drop (k * 100) nodes"
      using False by simp
    have "?pages = Suc k" using False less.prems by auto
    then have one: "[k..<?pages] = [k]" by simp
    have "GetOrgMembers_loop (pagedClient nodes) orgSlug (replicate k CHR ''c'') result log =
            Some (Inr (result @ map edgeMember (take 100 (drop (k * 100) nodes))),
                  log @ [(orgSlug, replicate k CHR ''c'')])"
      using False by (subst pagedClient_loop) (simp add: pageSize_def)
    then show ?thesis by (simp only: last one list.map)
  qed
qed

lemma pagedClient_all:
  "GetOrgMembers (pagedClient nodes) orgSlug log =
     Some (Inr (map edgeMember nodes),
           log @ map (\<lambda>j. (orgSlug, replicate j CHR ''c''))
                   [0..<max 1 ((length nodes + 99) div 100)])"
  using pagedClient_from[of 0 nodes orgSlug "[]" log]
  by (simp add: GetOrgMembers_def)

text \<open>
  Claim C7. \<open>GetOrgMembers\<close> enters the loop with the empty cursor and the empty result.
  For a page that arrives and decodes, the loop sends one request, appends the members of
  the page, and goes on with the end cursor of the page when \<open>hasNextPage\<close> is set and
  the end cursor is not empty; otherwise it returns the accumulated list. Against a server
  that holds 250 members and serves \<open>pageSize\<close> = 100 of them per page, the fetch returns
  after exactly three requests (for the empty cursor and the cursors of the first and
  second page), and its result is the 250 members in the order the server holds them.
  Against such a server with any number of members the fetch returns all of them in
  order, after one request per page and at least one.
\<close>

theorem GetOrgMembers_pagination:
  "GetOrgMembers c orgSlug log = GetOrgMembers_loop c orgSlug [] [] log
   \<and> (httpClient_Do c orgSlug after = Inr resp \<and> Body resp = Inr data
        \<and> json_Unmarshal_Errors c data = [] \<and> StatusCode resp = StatusOK
        \<and> json_Decode c data = Inr r \<longrightarrow>
        GetOrgMembers_loop c orgSlug after result log =
           (if HasNextPage (PageInfo r) \<and> EndCursor (PageInfo r) \<noteq> []
            then GetOrgMembers_loop c orgSlug (EndCursor (PageInfo r))
                   (result @ map edgeMember (Edges r)) (log @ [(orgSlug, after)])
            else Some (Inr (result @ map edgeMember (Edges r)), log @ [(orgSlug, after)])))
   \<and> (length nodes = 250 \<longrightarrow>
        GetOrgMembers (pagedClient nodes) orgSlug [] =
           Some (Inr (map edgeMember nodes),
                 [(orgSlug, []), (orgSlug, ''c''), (orgSlug, ''cc'')])
        \<and> length (map edgeMember nodes) = 250)
   \<and> GetOrgMembers (pagedClient nodes) orgSlug log =
        Some (Inr (map edgeMember nodes),
              log @ map (\<lambda>j. (orgSlug, replicate j CHR ''c''))
                      [0..<max 1 ((length nodes + 99) div 100)])"
proof (intro conjI impI)
  show "GetOrgMembers c orgSlug log = GetOrgMembers_loop c orgSlug [] [] log"
    by (simp add: GetOrgMembers_def)
next
  assume "httpClient_Do c orgSlug after = Inr resp \<and> Body resp = Inr data
        \<and> json_Unmarshal_Errors c data = [] \<and> StatusCode resp = StatusOK
        \<and> json_Decode c data = Inr r"
  then show "GetOrgMembers_loop c orgSlug after result log =
           (if HasNextPage (PageInfo r) \<and> EndCursor (PageInfo r) \<noteq> []
            then GetOrgMembers_loop c orgSlug (EndCursor (PageInfo r))
                   (result @ map edgeMember (Edges r)) (log @ [(orgSlug, after)])
            else Some (Inr (result @ map edgeMember (Edges r)), log @ [(orgSlug, after)]))"
    using GetOrgMembers_loop_decoded[of c orgSlug after resp data r result log] by blast
next
  assume "length nodes = 250"
  then show "GetOrgMembers (pagedClient nodes) orgSlug [] =
           Some (Inr (map edgeMember nodes),
                 [(orgSlug, []), (orgSlug, ''c''), (orgSlug, ''cc'')])"
    by (rule pagedClient_250)
next
  assume "length nodes = 250"
  then show "length (map edgeMember nodes) = 250" by simp
next
  show "GetOrgMembers (pagedClient nodes) orgSlug log =
        Some (Inr (map edgeMember nodes),
              log @ map (\<lambda>j. (orgSlug, replicate j CHR ''c''))
                      [0..<max 1 ((length nodes + 99) div 100)])"
    by (rule pagedClient_all)
qed

theorem GetOrgMembers_pagination_witness:
  "GetOrgMembers (pagedClient (map exampleNode [0..<250])) ''my-llama-org'' [] =
     Some (Inr (map edgeMember (map exampleNode [0..<250])),
           [(''my-llama-org'', []), (''my-llama-org'', ''c''), (''my-llama-org'', ''cc'')])
   \<and> length (map edgeMember (map exampleNode [0..<250])) = 250
   \<and> GetOrgMembers_loop (pagedClient (map exampleNode [0..<250])) ''my-llama-org'' [] [] [] =
       GetOrgMembers_loop (pagedClient (map exampleNode [0..<250])) ''my-llama-org'' ''c''
         (map edgeMember (take 100 (map exampleNode [0..<250]))) [(''my-llama-org'', [])]"
proof -
  let ?nodes = "map exampleNode [0..<250]"
  let ?resp = "\<lparr>StatusCode = 200, Status = ''200 OK'', Body = Inr []\<rparr>"
  let ?r = "\<lparr>PageInfo = \<lparr>HasNextPage = True, EndCursor = ''c''\<rparr>,
            Edges = take 100 ?nodes\<rparr>"
  have page: "httpClient_Do (pagedClient ?nodes) ''my-llama-org'' [] = Inr ?resp
      \<and> Body ?resp = Inr []
      \<and> json_Unmarshal_Errors (pagedClient ?nodes) [] = []
      \<and> StatusCode ?resp = StatusOK
      \<and> json_Decode (pagedClient ?nodes) [] = Inr ?r"
    by (simp add: pagedClient_def StatusOK_def pageSize_def)
  have len: "length ?nodes = 250" by simp
  note inst = GetOrgMembers_pagination [of "pagedClient ?nodes" "''my-llama-org''" "[]" "[]"
          ?resp "[]" ?r "[]" ?nodes]
  from inst page have "GetOrgMembers_loop (pagedClient ?nodes) ''my-llama-org'' [] [] [] =
           (if HasNextPage (PageInfo ?r) \<and> EndCursor (PageInfo ?r) \<noteq> []
            then GetOrgMembers_loop (pagedClient ?nodes) ''my-llama-org'' (EndCursor (PageInfo ?r))
                   ([] @ map edgeMember (Edges ?r)) ([] @ [(''my-llama-org'', [])])
            else Some (Inr ([] @ map edgeMember (Edges ?r)), [] @ [(''my-llama-org'', [])]))"
    by blast
  then have step: "GetOrgMembers_loop (pagedClient ?nodes) ''my-llama-org'' [] [] [] =
       GetOrgMembers_loop (pagedClient ?nodes) ''my-llama-org'' ''c''
         (map edgeMember (take 100 ?nodes)) [(''my-llama-org'', [])]"
    by simp
  from inst len have "GetOrgMembers (pagedClient ?nodes) ''my-llama-org'' [] =
     Some (Inr (map edgeMember ?nodes),
           [(''my-llama-org'', []), (''my-llama-org'', ''c''), (''my-llama-org'', ''cc'')])
   \<and> length (map edgeMember ?nodes) = 250"
    by blast
  with step show ?thesis by blast
qed

subsection \<open>The report, its collapse and the output\<close>

lemma dom_markSeen: "dom (markSeen rrs seenMembers) = dom seenMembers \<union> Member.ID ` set rrs"
  unfolding markSeen_def
  by (induction rrs arbitrary: seenMembers) auto

lemma dom_collapse_step:
  assumes "seenMembers (Member.ID (Member r)) = None"
    and "collapse_step dedupeEmail dedupeName (dupeResults, seenMembers) r = (out, seen')"
  shows "out = dupeResults @ [r]
     \<and> dom seen' = dom seenMembers \<union> {Member.ID (Member r)}
          \<union> (if dedupeEmail then Member.ID ` set (EmailDuplicates r) else {})
          \<union> (if dedupeName then Member.ID ` set (NameDuplicates r) else {})"
proof -
  define s1 where "s1 = seenMembers(Member.ID (Member r) \<mapsto> True)"
  define s2 where "s2 = (if dedupeEmail then markSeen (EmailDuplicates r) s1 else s1)"
  define s3 where "s3 = (if dedupeName then markSeen (NameDuplicates r) s2 else s2)"
  from assms have "out = dupeResults @ [r]" and "seen' = s3"
    by (auto simp: Let_def s1_def s2_def s3_def)
  moreover have "dom s1 = dom seenMembers \<union> {Member.ID (Member r)}"
    by (simp add: s1_def)
  moreover have "dom s2 = dom s1 \<union> (if dedupeEmail then Member.ID ` set (EmailDuplicates r) else {})"
    by (simp add: s2_def dom_markSeen)
  moreover have "dom s3 = dom s2 \<union> (if dedupeName then Member.ID ` set (NameDuplicates r) else {})"
    by (simp add: s3_def dom_markSeen)
  ultimately show ?thesis by simp
qed

lemma collapse_step_seen:
  "seenMembers (Member.ID (Member r)) \<noteq> None \<Longrightarrow>
     collapse_step dedupeEmail dedupeName (dupeResults, seenMembers) r = (dupeResults, seenMembers)"
  by simp

lemma foldl_collapse_step:
  "fst (foldl (collapse_step dedupeEmail dedupeName) (dupeResults, seenMembers) report)
     = dupeResults @ Collapse_spec dedupeEmail dedupeName (dom seenMembers) report"
proof (induction report arbitrary: dupeResults seenMembers)
  case Nil
  then show ?case by simp
next
  case (Cons r report)
  show ?case
  proof (cases "seenMembers (Member.ID (Member r))")
    case (Some b)
    then have "Member.ID (Member r) \<in> dom seenMembers" by auto
    with Some Cons.IH[of dupeResults seenMembers] show ?thesis by simp
  next
    case None
    obtain out seen' where st:
      "collapse_step dedupeEmail dedupeName (dupeResults, seenMembers) r = (out, seen')"
      by (cases "collapse_step dedupeEmail dedupeName (dupeResults, seenMembers) r")
    from dom_collapse_step[OF None st] have out: "out = dupeResults @ [r]"
      and d: "dom seen' = dom seenMembers \<union> {Member.ID (Member r)}
          \<union> (if dedupeEmail then Member.ID ` set (EmailDuplicates r) else {})
          \<union> (if dedupeName then Member.ID ` set (NameDuplicates r) else {})" by blast+
    from None have notin: "Member.ID (Member r) \<notin> dom seenMembers" by auto
    have "fst (foldl (collapse_step dedupeEmail dedupeName) (dupeResults, seenMembers) (r # report))
        = fst (foldl (collapse_step dedupeEmail dedupeName) (out, seen') report)"
      using st by (simp del: collapse_step.simps)
    also have "\<dots> = out @ Collapse_spec dedupeEmail dedupeName (dom seen') report"
      by (rule Cons.IH)
    finally show ?thesis using out d notin by simp
  qed
qed

lemma Collapse_refines:
  "dedupeEmail \<or> dedupeName \<Longrightarrow>
     Collapse dedupeEmail dedupeName report = Collapse_spec dedupeEmail dedupeName {} report"
  by (simp add: Collapse_def foldl_collapse_step)

lemma Collapse_spec_mem:
  "r \<in> set (Collapse_spec de dn seen report) \<Longrightarrow>
     r \<in> set report \<and> Member.ID (Member r) \<notin> seen"
  by (induction report arbitrary: seen) (auto split: if_splits)

lemma Collapse_spec_distinct:
  "distinct (map (\<lambda>r. Member.ID (Member r)) (Collapse_spec de dn seen report))"
proof (induction report arbitrary: seen)
  case Nil
  then show ?case by simp
next
  case (Cons r report)
  show ?case
  proof (cases "Member.ID (Member r) \<in> seen")
    case True
    then show ?thesis using Cons.IH by simp
  next
    case False
    define S where "S = seen \<union> {Member.ID (Member r)}
                    \<union> (if de then Member.ID ` set (EmailDuplicates r) else {})
                    \<union> (if dn then Member.ID ` set (NameDuplicates r) else {})"
    have inS: "Member.ID (Member r) \<in> S" by (simp add: S_def)
    have "\<forall>r'\<in>set (Collapse_spec de dn S report). Member.ID (Member r') \<noteq> Member.ID (Member r)"
      using Collapse_spec_mem inS by metis
    then have "Member.ID (Member r) \<notin> (\<lambda>r. Member.ID (Member r)) ` set (Collapse_spec de dn S report)"
      by auto
    moreover have "distinct (map (\<lambda>r. Member.ID (Member r)) (Collapse_spec de dn S report))"
      by (rule Cons.IH)
    moreover have "Collapse_spec de dn seen (r # report) = r # Collapse_spec de dn S report"
      using False by (simp add: S_def)
    ultimately show ?thesis by simp
  qed
qed

lemma report_loop_result:
  "set emails \<subseteq> Member.Email ` set members \<Longrightarrow>
     \<exists>res. report_loop members cEmail emails result = Inr (result @ res)
       \<and> map (\<lambda>r. Member.Email (Member r)) res
           = filter (\<lambda>email. cEmail = [] \<or> cEmail = email) emails
       \<and> (\<forall>r\<in>set res.
             filter (\<lambda>m. Member.Email m = Member.Email (Member r)) members
               = Member r # EmailDuplicates r
             \<and> NameDuplicates r
               = filter (\<lambda>m. Member.Name m = Member.Name (Member r)
                             \<and> Member.Email m \<noteq> Member.Email (Member r)) members)"
proof (induction emails arbitrary: result)
  case Nil
  then show ?case by simp
next
  case (Cons email emails)
  then have sub: "set emails \<subseteq> Member.Email ` set members"
    and mem: "email \<in> Member.Email ` set members" by auto
  show ?case
  proof (cases "cEmail \<noteq> [] \<and> cEmail \<noteq> email")
    case True
    with Cons.IH[OF sub, of result] show ?thesis by auto
  next
    case False
    from mem have "filter (\<lambda>m. Member.Email m = email) members \<noteq> []"
      by (auto simp: filter_empty_conv)
    then obtain member rest where f: "filter (\<lambda>m. Member.Email m = email) members = member # rest"
      by (cases "filter (\<lambda>m. Member.Email m = email) members") auto
    then have "member \<in> set (filter (\<lambda>m. Member.Email m = email) members)" by simp
    then have e: "Member.Email member = email" by simp
    define entry where "entry = \<lparr>Member = member,
        NameDuplicates = filter (\<lambda>m. Member.Name m = Member.Name member
                                  \<and> Member.Email m \<noteq> Member.Email member) members,
        EmailDuplicates = rest\<rparr>"
    have step: "report_loop members cEmail (email # emails) result
                  = report_loop members cEmail emails (result @ [entry])"
      using False f by (auto simp: filterMembersByEmail_def filterMembers_def entry_def)
    from Cons.IH[OF sub, of "result @ [entry]"] obtain res where
      res: "report_loop members cEmail emails (result @ [entry]) = Inr ((result @ [entry]) @ res)"
        "map (\<lambda>r. Member.Email (Member r)) res
           = filter (\<lambda>email. cEmail = [] \<or> cEmail = email) emails"
        "\<forall>r\<in>set res.
             filter (\<lambda>m. Member.Email m = Member.Email (Member r)) members
               = Member r # EmailDuplicates r
             \<and> NameDuplicates r
               = filter (\<lambda>m. Member.Name m = Member.Name (Member r)
                             \<and> Member.Email m \<noteq> Member.Email (Member r)) members"
      by blast
    have q: "filter (\<lambda>m. Member.Email m = Member.Email (Member entry)) members
               = Member entry # EmailDuplicates entry
             \<and> NameDuplicates entry
               = filter (\<lambda>m. Member.Name m = Member.Name (Member entry)
                             \<and> Member.Email m \<noteq> Member.Email (Member entry)) members"
      using f e by (simp add: entry_def)
    have m: "Member.Email (Member entry) = email" using e by (simp add: entry_def)
    show ?thesis
    proof (intro exI[of _ "entry # res"] conjI)
      show "report_loop members cEmail (email # emails) result = Inr (result @ entry # res)"
        using step res(1) by simp
      show "map (\<lambda>r. Member.Email (Member r)) (entry # res)
              = filter (\<lambda>email. cEmail = [] \<or> cEmail = email) (email # emails)"
        using False res(2) m by auto
      show "\<forall>r\<in>set (entry # res).
             filter (\<lambda>m. Member.Email m = Member.Email (Member r)) members
               = Member r # EmailDuplicates r
             \<and> NameDuplicates r
               = filter (\<lambda>m. Member.Name m = Member.Name (Member r)
                             \<and> Member.Email m \<noteq> Member.Email (Member r)) members"
        using q res(3) by simp
    qed
  qed
qed

lemma BuildReport_result:
  "\<exists>report. BuildReport members cEmail = Inr report
       \<and> map (\<lambda>r. Member.Email (Member r)) report
           = filter (\<lambda>email. cEmail = [] \<or> cEmail = email) (sort (map Member.Email members))
       \<and> (\<forall>r\<in>set report.
             filter (\<lambda>m. Member.Email m = Member.Email (Member r)) members
               = Member r # EmailDuplicates r
             \<and> NameDuplicates r
               = filter (\<lambda>m. Member.Name m = Member.Name (Member r)
                             \<and> Member.Email m \<noteq> Member.Email (Member r)) members)"
proof -
  have "set (sort (map Member.Email members)) \<subseteq> Member.Email ` set members" by simp
  from report_loop_result[OF this, of cEmail "[]"] show ?thesis
    by (simp add: BuildReport_def)
qed

lemma first_with_email:
  "filter (\<lambda>m. Member.Email m = email) members = member # rest \<Longrightarrow>
     \<exists>before after. members = before @ member # after
        \<and> (\<forall>m\<in>set before. Member.Email m \<noteq> email)
        \<and> Member.Email member = email
        \<and> rest = filter (\<lambda>m. Member.Email m = email) after"
  by (auto simp: filter_eq_Cons_iff)


lemma length_filter_sort:
  "length (filter P (sort (map f xs))) = length (filter (\<lambda>x. P (f x)) xs)"
proof -
  have "mset (filter P (sort (map f xs))) = mset (map f (filter (\<lambda>x. P (f x)) xs))"
    by (simp add: filter_mset_image_mset)
  then have "size (mset (filter P (sort (map f xs))))
               = size (mset (map f (filter (\<lambda>x. P (f x)) xs)))"
    by (rule arg_cong)
  then show ?thesis by (simp only: size_mset length_map)
qed

text \<open>
  Claim C1, as amended. The loop of \<open>Run\<close> runs over the sorted list of the e-mail of
  every member, repeats included. So \<open>BuildReport\<close> never fails and returns one entry for
  each member whose e-mail passes the filter (an e-mail shared by \<open>k\<close> members gives
  \<open>k\<close> equal entries), in ascending order of e-mail. The representative of an entry is the
  first member with that e-mail, its \<open>EmailDuplicates\<close> are the later members with that
  e-mail, and its \<open>NameDuplicates\<close> are the members with the representative's name and
  another e-mail. For the three members of the scenario, without filter, the report has
  three entries: two equal ones for \<open>a@x.com\<close> (representative id 1, \<open>EmailDuplicates\<close>
  id 2, \<open>NameDuplicates\<close> id 3) and one for \<open>b@x.com\<close> (representative id 3, no
  \<open>EmailDuplicates\<close>, \<open>NameDuplicates\<close> id 1 and id 2).
\<close>

theorem BuildReport_entries:
  "(\<exists>report. BuildReport members cEmail = Inr report
      \<and> map (\<lambda>r. Member.Email (Member r)) report
          = filter (\<lambda>email. cEmail = [] \<or> cEmail = email) (sort (map Member.Email members))
      \<and> sorted (map (\<lambda>r. Member.Email (Member r)) report)
      \<and> length report
          = length (filter (\<lambda>m. cEmail = [] \<or> cEmail = Member.Email m) members)
      \<and> (\<forall>r\<in>set report.
            (\<exists>before after. members = before @ Member r # after
               \<and> (\<forall>m\<in>set before. Member.Email m \<noteq> Member.Email (Member r))
               \<and> EmailDuplicates r
                   = filter (\<lambda>m. Member.Email m = Member.Email (Member r)) after)
            \<and> NameDuplicates r
                = filter (\<lambda>m. Member.Name m = Member.Name (Member r)
                              \<and> Member.Email m \<noteq> Member.Email (Member r)) members))
   \<and> BuildReport [id1, id2, id3] []
       = Inr [\<lparr>Member = id1, NameDuplicates = [id3], EmailDuplicates = [id2]\<rparr>,
              \<lparr>Member = id1, NameDuplicates = [id3], EmailDuplicates = [id2]\<rparr>,
              \<lparr>Member = id3, NameDuplicates = [id1, id2], EmailDuplicates = []\<rparr>]"
proof
  from BuildReport_result[of members cEmail] obtain report where
    r: "BuildReport members cEmail = Inr report"
    and e: "map (\<lambda>r. Member.Email (Member r)) report
          = filter (\<lambda>email. cEmail = [] \<or> cEmail = email) (sort (map Member.Email members))"
    and q: "\<forall>r\<in>set report.
             filter (\<lambda>m. Member.Email m = Member.Email (Member r)) members
               = Member r # EmailDuplicates r
             \<and> NameDuplicates r
               = filter (\<lambda>m. Member.Name m = Member.Name (Member r)
                             \<and> Member.Email m \<noteq> Member.Email (Member r)) members"
    by blast
  have s: "sorted (map (\<lambda>r. Member.Email (Member r)) report)"
    unfolding e by (rule sorted_wrt_filter) simp
  have "length (map (\<lambda>r. Member.Email (Member r)) report)
          = length (filter (\<lambda>m. cEmail = [] \<or> cEmail = Member.Email m) members)"
    unfolding e by (rule length_filter_sort)
  then have l: "length report
          = length (filter (\<lambda>m. cEmail = [] \<or> cEmail = Member.Email m) members)" by simp
  have f: "\<forall>r\<in>set report.
            (\<exists>before after. members = before @ Member r # after
               \<and> (\<forall>m\<in>set before. Member.Email m \<noteq> Member.Email (Member r))
               \<and> EmailDuplicates r
                   = filter (\<lambda>m. Member.Email m = Member.Email (Member r)) after)
            \<and> NameDuplicates r
                = filter (\<lambda>m. Member.Name m = Member.Name (Member r)
                              \<and> Member.Email m \<noteq> Member.Email (Member r)) members"
  proof
    fix r assume "r \<in> set report"
    with q have a: "filter (\<lambda>m. Member.Email m = Member.Email (Member r)) members
               = Member r # EmailDuplicates r"
      and b: "NameDuplicates r
               = filter (\<lambda>m. Member.Name m = Member.Name (Member r)
                             \<and> Member.Email m \<noteq> Member.Email (Member r)) members" by blast+
    from first_with_email[OF a] b
    show "(\<exists>before after. members = before @ Member r # after
               \<and> (\<forall>m\<in>set before. Member.Email m \<noteq> Member.Email (Member r))
               \<and> EmailDuplicates r
                   = filter (\<lambda>m. Member.Email m = Member.Email (Member r)) after)
            \<and> NameDuplicates r
                = filter (\<lambda>m. Member.Name m = Member.Name (Member r)
                              \<and> Member.Email m \<noteq> Member.Email (Member r)) members"
      by blast
  qed
  from r e s l f show "\<exists>report. BuildReport members cEmail = Inr report
      \<and> map (\<lambda>r. Member.Email (Member r)) report
          = filter (\<lambda>email. cEmail = [] \<or> cEmail = email) (sort (map Member.Email members))
      \<and> sorted (map (\<lambda>r. Member.Email (Member r)) report)
      \<and> length report
          = length (filter (\<lambda>m. cEmail = [] \<or> cEmail = Member.Email m) members)
      \<and> (\<forall>r\<in>set report.
            (\<exists>before after. members = before @ Member r # after
               \<and> (\<forall>m\<in>set before. Member.Email m \<noteq> Member.Email (Member r))
               \<and> EmailDuplicates r
                   = filter (\<lambda>m. Member.Email m = Member.Email (Member r)) after)
            \<and> NameDuplicates r
                = filter (\<lambda>m. Member.Name m = Member.Name (Member r)
                              \<and> Member.Email m \<noteq> Member.Email (Member r)) members)"
    by blast
next
  show "BuildReport [id1, id2, id3] []
       = Inr [\<lparr>Member = id1, NameDuplicates = [id3], EmailDuplicates = [id2]\<rparr>,
              \<lparr>Member = id1, NameDuplicates = [id3], EmailDuplicates = [id2]\<rparr>,
              \<lparr>Member = id3, NameDuplicates = [id1, id2], EmailDuplicates = []\<rparr>]"
    by (simp add: BuildReport_def filterMembersByEmail_def filterMembers_def
          id1_def id2_def id3_def scenarioMember_def)
qed

theorem BuildReport_entries_witness:
  "\<exists>report. BuildReport [id1, id2, id3] [] = Inr report
      \<and> map (\<lambda>r. Member.Email (Member r)) report = [''a@x.com'', ''a@x.com'', ''b@x.com'']
      \<and> length report = 3"
  using BuildReport_entries [of "[id1, id2, id3]" "[]"]
  by (auto simp: id1_def id2_def id3_def scenarioMember_def)

text \<open>
  Claim C1 as stated fails on the scenario it names: the report has three entries, the one
  for \<open>a@x.com\<close> twice, and is not the two-entry list the claim gives.
\<close>

theorem BuildReport_scenario_counterexample:
  "BuildReport [id1, id2, id3] []
     = Inr [\<lparr>Member = id1, NameDuplicates = [id3], EmailDuplicates = [id2]\<rparr>,
            \<lparr>Member = id1, NameDuplicates = [id3], EmailDuplicates = [id2]\<rparr>,
            \<lparr>Member = id3, NameDuplicates = [id1, id2], EmailDuplicates = []\<rparr>]
   \<and> BuildReport [id1, id2, id3] []
     \<noteq> Inr [\<lparr>Member = id1, NameDuplicates = [id3], EmailDuplicates = [id2]\<rparr>,
            \<lparr>Member = id3, NameDuplicates = [id1, id2], EmailDuplicates = []\<rparr>]"
  by (simp add: BuildReport_def filterMembersByEmail_def filterMembers_def
        id1_def id2_def id3_def scenarioMember_def)


text \<open>
  Claim C4. A report is what \<open>BuildReport\<close> returns. After the collapse with
  \<open>dedupeByEmail\<close> set, no two entries of the output have the same e-mail, so of the
  members sharing an e-mail at most one is a representative in the output; and every
  representative in the output is the first member with its e-mail. The collapse of any
  list is the walk the specification describes, started with nothing seen: entries are
  taken in order, an entry whose id is seen is skipped, and a kept entry marks its id and
  every id in its \<open>EmailDuplicates\<close> (and, with \<open>dedupeByName\<close>, in its
  \<open>NameDuplicates\<close>).
\<close>

theorem Collapse_by_email:
  "(\<exists>report. BuildReport members cEmail = Inr report
      \<and> distinct (map (\<lambda>r. Member.Email (Member r)) (Collapse True dedupeName report))
      \<and> (\<forall>r\<in>set (Collapse True dedupeName report).
            \<exists>before after. members = before @ Member r # after
               \<and> (\<forall>m\<in>set before. Member.Email m \<noteq> Member.Email (Member r))))
   \<and> Collapse True dedupeName result = Collapse_spec True dedupeName {} result"
proof
  from BuildReport_result[of members cEmail] obtain report where
    r: "BuildReport members cEmail = Inr report"
    and q: "\<forall>r\<in>set report.
             filter (\<lambda>m. Member.Email m = Member.Email (Member r)) members
               = Member r # EmailDuplicates r
             \<and> NameDuplicates r
               = filter (\<lambda>m. Member.Name m = Member.Name (Member r)
                             \<and> Member.Email m \<noteq> Member.Email (Member r)) members"
    by blast
  define out where "out = Collapse True dedupeName report"
  have out: "out = Collapse_spec True dedupeName {} report"
    by (simp add: out_def Collapse_refines)
  have sub: "set out \<subseteq> set report"
    using Collapse_spec_mem unfolding out by blast
  have "distinct (map (\<lambda>r. Member.ID (Member r)) out)"
    unfolding out by (rule Collapse_spec_distinct)
  then have d: "distinct out" by (simp add: distinct_map)
  have inj: "inj_on (\<lambda>r. Member.Email (Member r)) (set out)"
  proof (rule inj_onI)
    fix x y assume x: "x \<in> set out" and y: "y \<in> set out"
      and e: "Member.Email (Member x) = Member.Email (Member y)"
    from x y sub q e have "Member x # EmailDuplicates x = Member y # EmailDuplicates y"
      by (metis subsetD)
    moreover from this x y sub q e have "NameDuplicates x = NameDuplicates y"
      by (metis list.inject subsetD)
    ultimately show "x = y" by simp
  qed
  from d inj have dist: "distinct (map (\<lambda>r. Member.Email (Member r)) out)"
    by (simp add: distinct_map)
  have first: "\<forall>r\<in>set out. \<exists>before after. members = before @ Member r # after
               \<and> (\<forall>m\<in>set before. Member.Email m \<noteq> Member.Email (Member r))"
  proof
    fix r assume "r \<in> set out"
    with sub q have "filter (\<lambda>m. Member.Email m = Member.Email (Member r)) members
               = Member r # EmailDuplicates r" by blast
    from first_with_email[OF this]
    show "\<exists>before after. members = before @ Member r # after
               \<and> (\<forall>m\<in>set before. Member.Email m \<noteq> Member.Email (Member r))" by blast
  qed
  from r dist first show "\<exists>report. BuildReport members cEmail = Inr report
      \<and> distinct (map (\<lambda>r. Member.Email (Member r)) (Collapse True dedupeName report))
      \<and> (\<forall>r\<in>set (Collapse True dedupeName report).
            \<exists>before after. members = before @ Member r # after
               \<and> (\<forall>m\<in>set before. Member.Email m \<noteq> Member.Email (Member r)))"
    unfolding out_def by blast
next
  show "Collapse True dedupeName result = Collapse_spec True dedupeName {} result"
    by (simp add: Collapse_refines)
qed

theorem Collapse_by_email_witness:
  "(\<exists>report. BuildReport [id1, id2, id3] [] = Inr report
      \<and> Collapse True False report
          = [\<lparr>Member = id1, NameDuplicates = [id3], EmailDuplicates = [id2]\<rparr>,
             \<lparr>Member = id3, NameDuplicates = [id1, id2], EmailDuplicates = []\<rparr>]
      \<and> distinct (map (\<lambda>r. Member.Email (Member r)) (Collapse True False report)))
   \<and> Collapse_spec True False {}
        [\<lparr>Member = id1, NameDuplicates = [id3], EmailDuplicates = [id2]\<rparr>,
         \<lparr>Member = id1, NameDuplicates = [id3], EmailDuplicates = [id2]\<rparr>,
         \<lparr>Member = id3, NameDuplicates = [id1, id2], EmailDuplicates = []\<rparr>]
      = [\<lparr>Member = id1, NameDuplicates = [id3], EmailDuplicates = [id2]\<rparr>,
         \<lparr>Member = id3, NameDuplicates = [id1, id2], EmailDuplicates = []\<rparr>]"
  using Collapse_by_email [of "[id1, id2, id3]" "[]" False
          "[\<lparr>Member = id1, NameDuplicates = [id3], EmailDuplicates = [id2]\<rparr>,
            \<lparr>Member = id1, NameDuplicates = [id3], EmailDuplicates = [id2]\<rparr>,
            \<lparr>Member = id3, NameDuplicates = [id1, id2], EmailDuplicates = []\<rparr>]"]
  by (simp add: BuildReport_def filterMembersByEmail_def filterMembers_def Collapse_def
        markSeen_def id1_def id2_def id3_def scenarioMember_def)

text \<open>
  Claim C5. With both flags unset the collapse returns its input list unchanged.
\<close>

theorem Collapse_identity: "Collapse False False report = report"
  by (simp add: Collapse_def)

text \<open>
  Claim C8. In the \<open>csv\<close> mode, when the members have been fetched and the output file
  can be created, \<open>Run\<close> writes the header and then one record for each normalised
  member, in order, whatever the \<open>Dedupe\<close> list and the e-mail filter are; the number of
  records after the header is the number of members.
\<close>

theorem csv_rows:
  "Output c = ''csv'' \<Longrightarrow> getMembers w c = Some (Inr members) \<Longrightarrow>
   os_Create w ''output.csv'' = None \<Longrightarrow>
     Run w (c\<lparr>Dedupe := dedupe, cli.Email := email\<rparr>)
       = Some (Inr (Csv (csvHeader # map (csvRecord w) members)))
     \<and> length (map (csvRecord w) members) = length members"
proof -
  assume o: "Output c = ''csv''" and g: "getMembers w c = Some (Inr members)"
    and f: "os_Create w ''output.csv'' = None"
  from BuildReport_result[of members email] obtain report where
    r: "BuildReport members email = Inr report" by blast
  have "getMembers w (c\<lparr>Dedupe := dedupe, cli.Email := email\<rparr>) = getMembers w c"
    by (simp add: getMembers_def getOrgMembers_def split: option.splits)
  with g have g': "getMembers w (c\<lparr>Dedupe := dedupe, cli.Email := email\<rparr>) = Some (Inr members)"
    by simp
  show ?thesis
    using o f g' r by (simp add: Run_def Let_def split: prod.splits)
qed

theorem csv_rows_witness:
  "Run (exampleWorld exampleFetch)
       ((exampleCli [''my-llama-org''])\<lparr>Output := ''csv'', Dedupe := [''email'', ''name''],
                                          cli.Email := ''llama@llamas.com''\<rparr>)
     = Some (Inr (Csv
         [[''email'', ''name'', ''org'', ''role'', ''last_sso_auth''],
          [''llama@llamas.com'', ''Mr Llama'', ''my-llama-org'', ''member'', []],
          [''alpaca@llamas.com'', ''Al Paca'', ''my-llama-org'', ''admin'',
           ''2022-01-13 06:23:40'']]))"
proof -
  let ?members = "[\<lparr>Member.ID = ''u1'', Member.Email = ''llama@llamas.com'',
                     Member.Domain = ''llamas.com'', Member.Name = ''Mr Llama'',
                     Member.Org = ''my-llama-org'', Member.Role = ''member'',
                     Member.LastAuth = None, Member.Complimentary = False\<rparr>,
                   \<lparr>Member.ID = ''u2'', Member.Email = ''alpaca@llamas.com'',
                     Member.Domain = ''llamas.com'', Member.Name = ''Al Paca'',
                     Member.Org = ''my-llama-org'', Member.Role = ''admin'',
                     Member.LastAuth = Some 1642055020, Member.Complimentary = True\<rparr>]"
  have fetched: "getMembers (exampleWorld exampleFetch)
                   ((exampleCli [''my-llama-org''])\<lparr>Output := ''csv''\<rparr>) = Some (Inr ?members)"
    by (simp add: getMembers_def getOrgMembers_def exampleWorld_def exampleFetch_def exampleCli_def
          normalize_def
          llama_def alpaca_def getEmailDomain_def LastIndex_def toLowerASCII_def)
  have mode: "Output ((exampleCli [''my-llama-org''])\<lparr>Output := ''csv''\<rparr>) = ''csv''"
    by simp
  have created: "os_Create (exampleWorld exampleFetch) ''output.csv'' = None"
    by (simp add: exampleWorld_def)
  from csv_rows [where dedupe = "[''email'', ''name'']" and email = "''llama@llamas.com''",
         OF mode fetched created]
  show ?thesis
    by (simp add: csvHeader_def csvRecord_def exampleWorld_def)
qed

text \<open>
  Claim C10. With at least one of the two flags set, the representatives of the collapsed
  report have pairwise distinct ids. This holds for every input list, also for one that
  repeats a representative.
\<close>

theorem Collapse_distinct_ids:
  "dedupeEmail \<or> dedupeName \<Longrightarrow>
     distinct (map (\<lambda>r. Member.ID (Member r)) (Collapse dedupeEmail dedupeName report))"
  by (simp add: Collapse_refines Collapse_spec_distinct)



theorem Collapse_distinct_ids_witness:
  "Collapse True False
     [\<lparr>Member = id1, NameDuplicates = [id3], EmailDuplicates = [id2]\<rparr>,
      \<lparr>Member = id1, NameDuplicates = [id3], EmailDuplicates = [id2]\<rparr>,
      \<lparr>Member = id3, NameDuplicates = [id1, id2], EmailDuplicates = []\<rparr>]
     = [\<lparr>Member = id1, NameDuplicates = [id3], EmailDuplicates = [id2]\<rparr>,
        \<lparr>Member = id3, NameDuplicates = [id1, id2], EmailDuplicates = []\<rparr>]
   \<and> distinct (map (\<lambda>r. Member.ID (Member r))
        (Collapse True False
          [\<lparr>Member = id1, NameDuplicates = [id3], EmailDuplicates = [id2]\<rparr>,
           \<lparr>Member = id1, NameDuplicates = [id3], EmailDuplicates = [id2]\<rparr>,
           \<lparr>Member = id3, NameDuplicates = [id1, id2], EmailDuplicates = []\<rparr>]))"
  using Collapse_distinct_ids [of True False
          "[\<lparr>Member = id1, NameDuplicates = [id3], EmailDuplicates = [id2]\<rparr>,
            \<lparr>Member = id1, NameDuplicates = [id3], EmailDuplicates = [id2]\<rparr>,
            \<lparr>Member = id3, NameDuplicates = [id1, id2], EmailDuplicates = []\<rparr>]"]
  by (simp add: Collapse_def markSeen_def id1_def id2_def id3_def scenarioMember_def)


end
